theory Spec2Isabelle
  imports Complex_Main
begin

section \<open>Go values used by the gateway\<close>

text \<open>
  Go's \<^verbatim>\<open>int\<close> is a 64-bit two's complement integer on the platforms the gateway is
  built for. The model keeps mathematical integers and writes the wrap-around out at
  every addition the source performs on an \<^verbatim>\<open>int\<close> (the cursor increment and
  the weight sums).
\<close>

definition wrap_int :: "int \<Rightarrow> int" where
  "wrap_int x = (x + 2 ^ 63) mod 2 ^ 64 - 2 ^ 63"

text \<open>Go's \<^verbatim>\<open>%\<close> truncates towards zero: the result has the sign of the dividend.\<close>

definition go_rem :: "int \<Rightarrow> int \<Rightarrow> int" where
  "go_rem a b = (if a < 0 then - ((- a) mod \<bar>b\<bar>) else a mod \<bar>b\<bar>)"

datatype go_panic = IndexOutOfRange | InvalidArgumentToIntn

text \<open>
  \<^verbatim>\<open>rand.Rand.Intn(n)\<close> panics when \<^verbatim>\<open>n <= 0\<close> and otherwise yields a number
  in \<^verbatim>\<open>[0, n)\<close>. The random source is not part of the model's state: every call
  that may draw is given the raw number \<open>r\<close> the source produces on that call, and
  the draw is \<open>r mod n\<close>, so every value of \<^verbatim>\<open>[0, n)\<close> is a possible draw.
\<close>

definition Intn :: "nat \<Rightarrow> int \<Rightarrow> go_panic + int" where
  "Intn r n = (if n \<le> 0 then Inl InvalidArgumentToIntn else Inr (int r mod n))"

text \<open>\<^verbatim>\<open>strconv.Itoa\<close>: the decimal text of an integer.\<close>

fun digits :: "nat \<Rightarrow> string" where
  "digits n =
     (if n < 10 then [''0123456789'' ! n]
      else digits (n div 10) @ [''0123456789'' ! (n mod 10)])"

definition Itoa :: "int \<Rightarrow> string" where
  "Itoa i = (if i < 0 then CHR ''-'' # digits (nat (- i)) else digits (nat i))"

text \<open>The \<^verbatim>\<open>%v\<close> verb of \<^verbatim>\<open>fmt\<close> on a boolean.\<close>

definition fmt_bool :: "bool \<Rightarrow> string" where
  "fmt_bool b = (if b then ''true'' else ''false'')"

subsection \<open>Package logger\<close>

text \<open>
  Each logger function emits one formatted line at its level. The model returns the
  lines a function emits, in order, next to its result.
\<close>

datatype level = DebugLevel | InfoLevel | WarnLevel | ErrorLevel

type_synonym log_entry = "level \<times> string"

definition Info :: "string \<Rightarrow> log_entry list" where
  "Info msg = [(InfoLevel, msg)]"

definition Warn :: "string \<Rightarrow> log_entry list" where
  "Warn msg = [(WarnLevel, msg)]"

section \<open>Package config: the backend descriptor\<close>

record Backend =
  Name :: string
  URL :: string
  Weight :: int
  Health :: string

section \<open>Package loadbalancer\<close>

record BackendStatus =
  Backend :: Backend
  Healthy :: bool
  Weight :: int

text \<open>
  \<^verbatim>\<open>lb.backends\<close> is a slice of pointers to \<^verbatim>\<open>BackendStatus\<close> objects that
  \<^verbatim>\<open>New\<close> allocates one by one. The list \<open>backends\<close> is the store of these objects;
  a pointer to the \<open>i\<close>-th object (and the pointer \<^verbatim>\<open>&backend.Backend\<close> into it that
  \<^verbatim>\<open>NextBackend\<close> returns) is the index \<open>i\<close>, and \<^verbatim>\<open>nil\<close> is \<open>None\<close>.
  The mutex is not modelled: every operation below runs with the lock held from its
  first to its last step, so operations are atomic steps on the state.
\<close>

type_synonym ptr = nat

record LoadBalancer =
  backends :: "BackendStatus list"
  currentIndex :: int
  algorithm :: string

definition New :: "Backend list \<Rightarrow> LoadBalancer \<times> log_entry list" where
  "New bs =
     (\<lparr>backends = map (\<lambda>b. \<lparr>Backend = b, Healthy = True, Weight = Backend.Weight b\<rparr>) bs,
       currentIndex = 0,
       algorithm = ''round_robin''\<rparr>,
      Info (''LoadBalancer initialized with '' @ Itoa (int (length bs)) @ '' backends''))"

definition getHealthyBackendsLocked :: "LoadBalancer \<Rightarrow> ptr list" where
  "getHealthyBackendsLocked lb =
     filter (\<lambda>i. Healthy (backends lb ! i)) [0..<length (backends lb)]"


type_synonym selection = "go_panic + ptr option"

definition roundRobin :: "ptr list \<Rightarrow> LoadBalancer \<Rightarrow> selection \<times> LoadBalancer" where
  "roundRobin healthyBackends lb =
     (if length healthyBackends = 0 then (Inr None, lb)
      else
        let idx = go_rem (currentIndex lb) (int (length healthyBackends)) in
        if idx < 0 \<or> int (length healthyBackends) \<le> idx then (Inl IndexOutOfRange, lb)
        else
          let c = wrap_int (currentIndex lb + 1);
              c' = (if c \<ge> 1000000 then 0 else c)
          in (Inr (Some (healthyBackends ! nat idx)), lb\<lparr>currentIndex := c'\<rparr>))"

text \<open>The first loop of \<^verbatim>\<open>weightedRoundRobin\<close>: the sum of the snapshot's weights.\<close>

definition totalWeight :: "BackendStatus list \<Rightarrow> ptr list \<Rightarrow> int" where
  "totalWeight bs healthyBackends =
     foldl (\<lambda>t i. wrap_int (t + BackendStatus.Weight (bs ! i))) 0 healthyBackends"

text \<open>
  The second loop: \<open>currentWeight\<close> accumulates, and the first entry whose running sum
  exceeds the draw is returned. \<open>None\<close> is the loop running to its end.
\<close>

fun accumulate :: "BackendStatus list \<Rightarrow> int \<Rightarrow> int \<Rightarrow> ptr list \<Rightarrow> ptr option" where
  "accumulate bs randomWeight currentWeight [] = None"
| "accumulate bs randomWeight currentWeight (i # rest) =
     (let currentWeight' = wrap_int (currentWeight + BackendStatus.Weight (bs ! i)) in
      if randomWeight < currentWeight' then Some i
      else accumulate bs randomWeight currentWeight' rest)"

definition weightedRoundRobin ::
    "nat \<Rightarrow> ptr list \<Rightarrow> LoadBalancer \<Rightarrow> selection \<times> LoadBalancer" where
  "weightedRoundRobin r healthyBackends lb =
     (if length healthyBackends = 0 then (Inr None, lb)
      else if totalWeight (backends lb) healthyBackends = 0 then roundRobin healthyBackends lb
      else
        case Intn r (totalWeight (backends lb) healthyBackends) of
          Inl p \<Rightarrow> (Inl p, lb)
        | Inr randomWeight \<Rightarrow>
            (case accumulate (backends lb) randomWeight 0 healthyBackends of
               Some i \<Rightarrow> (Inr (Some i), lb)
             | None \<Rightarrow> (Inr (Some (healthyBackends ! 0)), lb)))"

definition randomBackend ::
    "nat \<Rightarrow> ptr list \<Rightarrow> LoadBalancer \<Rightarrow> selection \<times> LoadBalancer" where
  "randomBackend r healthyBackends lb =
     (if length healthyBackends = 0 then (Inr None, lb)
      else
        case Intn r (int (length healthyBackends)) of
          Inl p \<Rightarrow> (Inl p, lb)
        | Inr index \<Rightarrow> (Inr (Some (healthyBackends ! nat index)), lb))"

definition NextBackend ::
    "nat \<Rightarrow> LoadBalancer \<Rightarrow> selection \<times> LoadBalancer \<times> log_entry list" where
  "NextBackend r lb =
     (let healthyBackends = getHealthyBackendsLocked lb in
      if length healthyBackends = 0 then (Inr None, lb, Warn ''No healthy backends available'')
      else
        let (res, lb') =
          (if algorithm lb = ''weighted_round_robin'' then weightedRoundRobin r healthyBackends lb
           else if algorithm lb = ''random'' then randomBackend r healthyBackends lb
           else if algorithm lb = ''least_connections'' then roundRobin healthyBackends lb
           else roundRobin healthyBackends lb)
        in (res, lb', []))"

text \<open>
  The loop of \<^verbatim>\<open>SetBackendHealth\<close> over the registry: it stops at the first entry
  with the name. \<open>None\<close> is the loop running to its end without a match.
\<close>

fun setHealthLoop ::
    "string \<Rightarrow> bool \<Rightarrow> BackendStatus list \<Rightarrow> (BackendStatus list \<times> log_entry list) option" where
  "setHealthLoop backendName healthy [] = None"
| "setHealthLoop backendName healthy (b # rest) =
     (if Name (Backend b) = backendName then
        (if Healthy b \<noteq> healthy then
           Some (b\<lparr>Healthy := healthy\<rparr> # rest,
                 Info (''Backend '' @ backendName @ '' health changed: '' @ fmt_bool (Healthy b)
                       @ '' -> '' @ fmt_bool healthy))
         else Some (b # rest, []))
      else
        (case setHealthLoop backendName healthy rest of
           None \<Rightarrow> None
         | Some (rest', l) \<Rightarrow> Some (b # rest', l)))"

definition SetBackendHealth ::
    "string \<Rightarrow> bool \<Rightarrow> LoadBalancer \<Rightarrow> LoadBalancer \<times> log_entry list" where
  "SetBackendHealth backendName healthy lb =
     (case setHealthLoop backendName healthy (backends lb) of
        Some (bs', l) \<Rightarrow> (lb\<lparr>backends := bs'\<rparr>, l)
      | None \<Rightarrow>
          (lb, Warn (''Backend '' @ backendName @ '' not found when updating health status'')))"

definition validAlgorithms :: "string list" where
  "validAlgorithms = [''round_robin'', ''weighted_round_robin'', ''random'', ''least_connections'']"

definition SetAlgorithm :: "string \<Rightarrow> LoadBalancer \<Rightarrow> LoadBalancer \<times> log_entry list" where
  "SetAlgorithm alg lb =
     (if alg \<notin> set validAlgorithms then
        (lb\<lparr>algorithm := ''round_robin''\<rparr>,
         Warn (''Invalid load balancing algorithm: '' @ alg @ '', using round_robin''))
      else (lb\<lparr>algorithm := alg\<rparr>, Info (''Load balancing algorithm set to: '' @ alg)))"

subsection \<open>Sequences of calls\<close>

text \<open>
  \<open>NextBackends rs lb\<close> is \<^verbatim>\<open>NextBackend\<close> called once for each element of \<open>rs\<close>
  (the numbers the random source produces), with nothing in between: the selections in
  call order, the final state and the lines logged.
\<close>

fun NextBackends ::
    "nat list \<Rightarrow> LoadBalancer \<Rightarrow> selection list \<times> LoadBalancer \<times> log_entry list" where
  "NextBackends [] lb = ([], lb, [])"
| "NextBackends (r # rs) lb =
     (case NextBackend r lb of
        (res, lb', l) \<Rightarrow>
          (case NextBackends rs lb' of
             (ress, lb'', l') \<Rightarrow> (res # ress, lb'', l @ l')))"

text \<open>
  Calls on one load balancer in any order: the selections of the \<^verbatim>\<open>NextBackend\<close>
  calls, in call order, and the final state.
\<close>

datatype lb_call =
    CallNextBackend nat
  | CallSetBackendHealth string bool
  | CallSetAlgorithm string

fun run_calls :: "lb_call list \<Rightarrow> LoadBalancer \<Rightarrow> selection list \<times> LoadBalancer" where
  "run_calls [] lb = ([], lb)"
| "run_calls (CallNextBackend r # cs) lb =
     (case NextBackend r lb of
        (res, lb', l) \<Rightarrow> (case run_calls cs lb' of (ress, lb'') \<Rightarrow> (res # ress, lb'')))"
| "run_calls (CallSetBackendHealth n h # cs) lb = run_calls cs (fst (SetBackendHealth n h lb))"
| "run_calls (CallSetAlgorithm a # cs) lb = run_calls cs (fst (SetAlgorithm a lb))"

text \<open>The registry entry a name denotes: the first one carrying it, if any.\<close>

fun find_backend :: "string \<Rightarrow> BackendStatus list \<Rightarrow> ptr option" where
  "find_backend n [] = None"
| "find_backend n (b # rest) =
     (if Name (Backend b) = n then Some 0 else map_option Suc (find_backend n rest))"

section \<open>HTTP responses\<close>

text \<open>
  A handler is given an \<^verbatim>\<open>http.ResponseWriter\<close>, an interface, and acts on it by
  calls: setting a header through \<^verbatim>\<open>Header()\<close>, \<^verbatim>\<open>WriteHeader\<close> and
  \<^verbatim>\<open>Write\<close>. What a handler does to its writer is the list of these calls in order,
  and the state of any writer is determined by the calls it has received.
\<close>

datatype wcall =
    SetHeader string string
  | WriteHeader int
  | Write string

text \<open>
  The writer at the end of the chain, as the standard library's server and its
  \<^verbatim>\<open>httptest.ResponseRecorder\<close> behave: the first \<^verbatim>\<open>WriteHeader\<close> fixes the
  status and the headers that are sent, later ones are ignored, and a \<^verbatim>\<open>Write\<close>
  before any \<^verbatim>\<open>WriteHeader\<close> sends the implicit status 200.
\<close>

record Response =
  Header :: "string \<rightharpoonup> string"
  wroteHeader :: bool
  Code :: int
  sentHeader :: "string \<rightharpoonup> string"
  Body :: string

definition NewRecorder :: Response where
  "NewRecorder =
     \<lparr>Header = Map.empty, wroteHeader = False, Code = 200, sentHeader = Map.empty, Body = []\<rparr>"

definition recorder_WriteHeader :: "int \<Rightarrow> Response \<Rightarrow> Response" where
  "recorder_WriteHeader code w =
     (if wroteHeader w then w
      else w\<lparr>wroteHeader := True, Code := code, sentHeader := Header w\<rparr>)"

fun recorder_call :: "wcall \<Rightarrow> Response \<Rightarrow> Response" where
  "recorder_call (SetHeader k v) w = w\<lparr>Header := (Header w)(k \<mapsto> v)\<rparr>"
| "recorder_call (WriteHeader code) w = recorder_WriteHeader code w"
| "recorder_call (Write d) w =
     (let w' = (if wroteHeader w then w else recorder_WriteHeader 200 w)
      in w'\<lparr>Body := Body w' @ d\<rparr>)"

definition respond :: "wcall list \<Rightarrow> Response" where
  "respond calls = foldl (\<lambda>w c. recorder_call c w) NewRecorder calls"

text \<open>\<^verbatim>\<open>http.Error\<close>: two headers, the status, and the message followed by a newline.\<close>

definition http_Error :: "string \<Rightarrow> int \<Rightarrow> wcall list" where
  "http_Error msg code =
     [SetHeader ''Content-Type'' ''text/plain; charset=utf-8'',
      SetHeader ''X-Content-Type-Options'' ''nosniff'',
      WriteHeader code,
      Write (msg @ [CHR 0x0A])]"

text \<open>
  The parts of \<^verbatim>\<open>http.Request\<close> the gateway reads. \<^verbatim>\<open>Header.Get\<close> yields the empty
  string for a header that is not set.
\<close>

record Request =
  Method :: string
  Path :: string
  RequestHeader :: "string \<rightharpoonup> string"
  RemoteAddr :: string

definition Header_Get :: "Request \<Rightarrow> string \<Rightarrow> string" where
  "Header_Get r k = (case RequestHeader r k of None \<Rightarrow> [] | Some v \<Rightarrow> v)"

section \<open>Package metrics\<close>

text \<open>
  The collectors are package-level variables. A counter vector maps its label values to
  a count; the histogram keeps, for each label pair, the durations observed
  (\<^verbatim>\<open>time.Duration\<close>, in nanoseconds), in the order of observation.
\<close>

record Metrics =
  requestsTotal :: "string \<times> string \<times> string \<Rightarrow> nat"
  requestDuration :: "string \<times> string \<Rightarrow> int list"
  backendRequestsTotal :: "string \<times> string \<Rightarrow> nat"
  rateLimitedRequests :: nat

definition RecordRequest :: "string \<Rightarrow> string \<Rightarrow> string \<Rightarrow> int \<Rightarrow> Metrics \<Rightarrow> Metrics" where
  "RecordRequest method status backend duration m =
     m\<lparr>requestsTotal :=
         (requestsTotal m)((method, status, backend) :=
            Suc (requestsTotal m (method, status, backend))),
       requestDuration :=
         (requestDuration m)((method, backend) := requestDuration m (method, backend) @ [duration])\<rparr>"

definition RecordBackendRequest :: "string \<Rightarrow> string \<Rightarrow> Metrics \<Rightarrow> Metrics" where
  "RecordBackendRequest backend status m =
     m\<lparr>backendRequestsTotal :=
         (backendRequestsTotal m)((backend, status) :=
            Suc (backendRequestsTotal m (backend, status)))\<rparr>"

definition RecordRateLimit :: "Metrics \<Rightarrow> Metrics" where
  "RecordRateLimit m = m\<lparr>rateLimitedRequests := Suc (rateLimitedRequests m)\<rparr>"

text \<open>
  \<^verbatim>\<open>metrics.ResponseWriter\<close> embeds the \<^verbatim>\<open>http.ResponseWriter\<close> it wraps. The
  embedded writer is an interface value; it is represented by the calls delivered to it.
  \<^verbatim>\<open>WriteHeader\<close> is the only method the wrapper defines; \<^verbatim>\<open>Header\<close> and
  \<^verbatim>\<open>Write\<close> are promoted from the embedded writer.
\<close>

record ResponseWriter =
  ResponseWriter :: "wcall list"
  statusCode :: int

definition NewResponseWriter :: "wcall list \<Rightarrow> ResponseWriter" where
  "NewResponseWriter w = \<lparr>ResponseWriter = w, statusCode = 200\<rparr>"

definition rw_WriteHeader :: "int \<Rightarrow> ResponseWriter \<Rightarrow> ResponseWriter" where
  "rw_WriteHeader code rw =
     rw\<lparr>statusCode := code, ResponseWriter := ResponseWriter rw @ [WriteHeader code]\<rparr>"

definition StatusCode :: "ResponseWriter \<Rightarrow> string" where
  "StatusCode rw = Itoa (statusCode rw)"

fun rw_call :: "wcall \<Rightarrow> ResponseWriter \<Rightarrow> ResponseWriter" where
  "rw_call (WriteHeader code) rw = rw_WriteHeader code rw"
| "rw_call (SetHeader k v) rw = rw\<lparr>ResponseWriter := ResponseWriter rw @ [SetHeader k v]\<rparr>"
| "rw_call (Write d) rw = rw\<lparr>ResponseWriter := ResponseWriter rw @ [Write d]\<rparr>"

definition rw_calls :: "wcall list \<Rightarrow> ResponseWriter \<Rightarrow> ResponseWriter" where
  "rw_calls calls rw = foldl (\<lambda>rw c. rw_call c rw) rw calls"

text \<open>The codes of the \<^verbatim>\<open>WriteHeader\<close> calls of a sequence of calls, in order.\<close>

fun header_codes :: "wcall list \<Rightarrow> int list" where
  "header_codes [] = []"
| "header_codes (WriteHeader code # cs) = code # header_codes cs"
| "header_codes (c # cs) = header_codes cs"

section \<open>Package middleware\<close>

text \<open>
  The package-level state a handler can reach: the metrics collectors and the logger's
  output. A handler maps a request, this state and whatever else it owns (\<open>'e\<close>) to
  the calls it makes on its writer and the new states.
\<close>

record Globals =
  metrics :: Metrics
  logged :: "log_entry list"

type_synonym 'e handler = "Request \<Rightarrow> Globals \<Rightarrow> 'e \<Rightarrow> wcall list \<times> Globals \<times> 'e"

text \<open>
  \<^verbatim>\<open>MetricsMiddleware.Wrap\<close>. \<open>duration\<close> is what \<^verbatim>\<open>time.Since(start)\<close> returns
  after the inner handler is done. The inner handler is served with the wrapper as its
  writer, so each of its calls lands on the wrapper.
\<close>

definition MetricsMiddleware_Wrap :: "int \<Rightarrow> 'e handler \<Rightarrow> 'e handler" where
  "MetricsMiddleware_Wrap duration next r g e =
     (let rw = NewResponseWriter [] in
      case next r g e of
        (calls, g', e') \<Rightarrow>
          let rw' = rw_calls calls rw in
          if Path r \<noteq> ''/metrics'' then
            (ResponseWriter rw',
             g'\<lparr>metrics := RecordRequest (Method r) (StatusCode rw') ''gateway'' duration (metrics g')\<rparr>,
             e')
          else (ResponseWriter rw', g', e'))"

definition getClientIP :: "Request \<Rightarrow> string" where
  "getClientIP r =
     (if Header_Get r ''X-Forwarded-For'' \<noteq> [] then Header_Get r ''X-Forwarded-For''
      else if Header_Get r ''X-Real-IP'' \<noteq> [] then Header_Get r ''X-Real-IP''
      else RemoteAddr r)"

text \<open>
  Modelled from the spec: the token bucket behind \<^verbatim>\<open>rate.Limiter\<close>
  (\<^verbatim>\<open>golang.org/x/time/rate\<close>), whose code is not among the repository's files.
  Tokens refill continuously at the configured rate up to the burst capacity; a call
  attempts to consume one token, succeeds iff at least one is available, and otherwise
  fails with no token consumed. The bucket starts full. Time is in seconds; \<open>now\<close> is
  the clock's reading at the call.
\<close>

record Limiter =
  rate :: rat
  burst :: int
  tokens :: rat
  lastTime :: rat

definition NewLimiter :: "rat \<Rightarrow> int \<Rightarrow> Limiter" where
  "NewLimiter r b = \<lparr>rate = r, burst = b, tokens = of_int b, lastTime = 0\<rparr>"

definition available :: "rat \<Rightarrow> Limiter \<Rightarrow> rat" where
  "available now limiter =
     min (of_int (burst limiter)) (tokens limiter + max 0 (now - lastTime limiter) * rate limiter)"

definition Allow :: "rat \<Rightarrow> Limiter \<Rightarrow> bool \<times> Limiter" where
  "Allow now limiter =
     (if 1 \<le> available now limiter
      then (True, limiter\<lparr>tokens := available now limiter - 1, lastTime := now\<rparr>)
      else (False, limiter))"

text \<open>
  \<^verbatim>\<open>NewRateLimiter\<close> turns requests per minute into tokens per second. The line it
  logs prints the rate as a float with two decimals; the model keeps the line's fixed
  part only.
\<close>

definition NewRateLimiter :: "int \<Rightarrow> int \<Rightarrow> Limiter \<times> log_entry list" where
  "NewRateLimiter requestsPerMinute burstSize =
     (NewLimiter (of_int requestsPerMinute / 60) burstSize,
      Info (''Rate limiter initialized''))"

text \<open>
  \<^verbatim>\<open>RateLimitMiddleware.Wrap\<close>. The limiter is the middleware's own field: the inner
  handler has no access to it, so it is kept apart from the inner handler's state.
\<close>

definition RateLimitMiddleware_Wrap :: "rat \<Rightarrow> 'e handler \<Rightarrow> (Limiter \<times> 'e) handler" where
  "RateLimitMiddleware_Wrap now next r g me =
     (case me of
        (limiter, e) \<Rightarrow>
          if Path r = ''/health'' \<or> Path r = ''/metrics'' then
            (case next r g e of (calls, g', e') \<Rightarrow> (calls, g', (limiter, e')))
          else
            (case Allow now limiter of
               (allowed, limiter') \<Rightarrow>
                 if \<not> allowed then
                   (SetHeader ''Retry-After'' ''60''
                      # http_Error ''Rate limit exceeded'' 429,
                    g\<lparr>logged := logged g @ Warn (''Rate limit exceeded for '' @ Method r @ '' '' @ Path r
                               @ '' from '' @ getClientIP r),
                      metrics := RecordRateLimit (metrics g)\<rparr>,
                    (limiter', e))
                 else
                   (case next r g e of (calls, g', e') \<Rightarrow> (calls, g', (limiter', e')))))"

section \<open>Package gateway\<close>



section \<open>Example states\<close>

text \<open>The two backends of the repository's load balancer tests, and a third one.\<close>

definition backend1 :: Backend where
  "backend1 = \<lparr>Name = ''backend1'', URL = ''http://localhost:3001'', Weight = 50, Health = ''/health''\<rparr>"

definition backend2 :: Backend where
  "backend2 = \<lparr>Name = ''backend2'', URL = ''http://localhost:3002'', Weight = 50, Health = ''/health''\<rparr>"

definition backend3 :: Backend where
  "backend3 = \<lparr>Name = ''backend3'', URL = ''http://localhost:3003'', Weight = 50, Health = ''/health''\<rparr>"

definition lb2 :: LoadBalancer where
  "lb2 = fst (New [backend1, backend2])"

definition lb3 :: LoadBalancer where
  "lb3 = fst (New [backend1, backend2, backend3])"

definition lb2_down :: LoadBalancer where
  "lb2_down = fst (SetBackendHealth ''backend2'' False (fst (SetBackendHealth ''backend1'' False lb2)))"

text \<open>The registry of the weighted test (weights 75 and 25), and one with all weights zero.\<close>

definition lb_weighted :: LoadBalancer where
  "lb_weighted =
     fst (SetAlgorithm ''weighted_round_robin''
       (fst (New [backend1\<lparr>Backend.Weight := 75\<rparr>, backend2\<lparr>Backend.Weight := 25\<rparr>])))"

definition lb_zero :: LoadBalancer where
  "lb_zero =
     fst (SetAlgorithm ''weighted_round_robin''
       (fst (New [backend1\<lparr>Backend.Weight := 0\<rparr>, backend2\<lparr>Backend.Weight := 0\<rparr>])))"

text \<open>The handler of the middleware tests: it writes status 200 and the body \<^verbatim>\<open>OK\<close>.\<close>

definition ok_handler :: "'e handler" where
  "ok_handler r g e = ([WriteHeader 200, Write ''OK''], g, e)"

text \<open>Collectors that have recorded nothing, and requests of the tests.\<close>

definition no_metrics :: Metrics where
  "no_metrics =
     \<lparr>requestsTotal = (\<lambda>_. 0), requestDuration = (\<lambda>_. []),
       backendRequestsTotal = (\<lambda>_. 0), rateLimitedRequests = 0\<rparr>"

definition no_globals :: Globals where
  "no_globals = \<lparr>metrics = no_metrics, logged = []\<rparr>"

definition get_test :: Request where
  "get_test =
     \<lparr>Method = ''GET'', Path = ''/test'', RequestHeader = Map.empty, RemoteAddr = ''10.0.0.1:12345''\<rparr>"

definition get_health :: Request where
  "get_health =
     \<lparr>Method = ''GET'', Path = ''/health'', RequestHeader = Map.empty, RemoteAddr = ''10.0.0.1:12345''\<rparr>"

definition get_metrics :: Request where
  "get_metrics =
     \<lparr>Method = ''GET'', Path = ''/metrics'', RequestHeader = Map.empty, RemoteAddr = ''10.0.0.1:12345''\<rparr>"


section \<open>Selection with and without healthy backends\<close>

lemma getHealthy_empty_iff:
  "getHealthyBackendsLocked lb = [] \<longleftrightarrow> (\<forall>b\<in>set (backends lb). \<not> Healthy b)"
  by (auto simp: getHealthyBackendsLocked_def filter_empty_conv all_set_conv_all_nth)

lemma roundRobin_not_nil:
  "hs \<noteq> [] \<Longrightarrow> fst (roundRobin hs lb) \<noteq> Inr None"
  by (simp add: roundRobin_def Let_def)

lemma weightedRoundRobin_not_nil:
  "hs \<noteq> [] \<Longrightarrow> fst (weightedRoundRobin r hs lb) \<noteq> Inr None"
  by (simp add: weightedRoundRobin_def roundRobin_not_nil split: sum.splits option.splits)

lemma randomBackend_not_nil:
  "hs \<noteq> [] \<Longrightarrow> fst (randomBackend r hs lb) \<noteq> Inr None"
  by (simp add: randomBackend_def split: sum.splits)

lemma NextBackend_no_healthy:
  "getHealthyBackendsLocked lb = [] \<Longrightarrow>
   NextBackend r lb = (Inr None, lb, Warn ''No healthy backends available'')"
  by (simp add: NextBackend_def)

lemma NextBackend_some_healthy:
  "getHealthyBackendsLocked lb \<noteq> [] \<Longrightarrow> fst (NextBackend r lb) \<noteq> Inr None"
  by (simp add: NextBackend_def Let_def split_beta
        roundRobin_not_nil weightedRoundRobin_not_nil randomBackend_not_nil)

lemma NextBackends_no_healthy:
  "getHealthyBackendsLocked lb = [] \<Longrightarrow>
   NextBackends rs lb =
     (replicate (length rs) (Inr None), lb,
      concat (replicate (length rs) (Warn ''No healthy backends available'')))"
  by (induction rs) (simp_all add: NextBackend_no_healthy)

section \<open>Round robin visits the healthy backends in rotation\<close>

lemma wrap_int_id: "- (2 ^ 63) \<le> x \<Longrightarrow> x < 2 ^ 63 \<Longrightarrow> wrap_int x = x"
  by (simp add: wrap_int_def)

lemma go_rem_nonneg: "0 \<le> a \<Longrightarrow> 0 < b \<Longrightarrow> go_rem a b = a mod b"
  by (simp add: go_rem_def)

lemma cursor_step:
  assumes "0 \<le> c" "c < 1000000"
  shows "(if wrap_int (c + 1) \<ge> 1000000 then 0 else wrap_int (c + 1)) = (c + 1) mod 1000000"
proof -
  have "wrap_int (c + 1) = c + 1" using assms by (intro wrap_int_id) simp_all
  moreover have "(c + 1) mod 1000000 = (if c = 999999 then 0 else c + 1)"
    using assms by simp
  ultimately show ?thesis using assms by simp
qed

lemma roundRobin_step:
  assumes "hs \<noteq> []" "0 \<le> currentIndex lb" "currentIndex lb < 1000000"
  shows "roundRobin hs lb =
    (Inr (Some (hs ! nat (currentIndex lb mod int (length hs)))),
     lb\<lparr>currentIndex := (currentIndex lb + 1) mod 1000000\<rparr>)"
proof -
  have len: "0 < int (length hs)" using assms(1) by simp
  have idx: "go_rem (currentIndex lb) (int (length hs)) = currentIndex lb mod int (length hs)"
    using assms(2) len by (rule go_rem_nonneg)
  have nonneg: "0 \<le> currentIndex lb mod int (length hs)"
    using len by simp
  have lt: "currentIndex lb mod int (length hs) < int (length hs)"
    using len by simp
  show ?thesis
    using assms(1) nonneg lt cursor_step [OF assms(2,3)]
    by (simp add: roundRobin_def idx Let_def not_less not_le)
qed

lemma getHealthy_currentIndex [simp]:
  "getHealthyBackendsLocked (lb\<lparr>currentIndex := c\<rparr>) = getHealthyBackendsLocked lb"
  by (simp add: getHealthyBackendsLocked_def)

lemma NextBackend_round_robin:
  assumes "algorithm lb = ''round_robin''" "getHealthyBackendsLocked lb \<noteq> []"
    "0 \<le> currentIndex lb" "currentIndex lb < 1000000"
  shows "NextBackend r lb =
    (Inr (Some (getHealthyBackendsLocked lb !
        nat (currentIndex lb mod int (length (getHealthyBackendsLocked lb))))),
     lb\<lparr>currentIndex := (currentIndex lb + 1) mod 1000000\<rparr>, [])"
  using assms by (simp add: NextBackend_def Let_def roundRobin_step)

lemma NextBackends_round_robin:
  assumes "algorithm lb = ''round_robin''" "getHealthyBackendsLocked lb = hs" "hs \<noteq> []"
    "0 \<le> currentIndex lb" "currentIndex lb < 1000000"
  shows "fst (NextBackends rs lb) =
    map (\<lambda>k. Inr (Some (hs ! nat (((currentIndex lb + int k) mod 1000000) mod int (length hs)))))
      [0..<length rs]"
  using assms
proof (induction rs arbitrary: lb)
  case Nil
  then show ?case by simp
next
  case (Cons r rs)
  let ?lb' = "lb\<lparr>currentIndex := (currentIndex lb + 1) mod 1000000\<rparr>"
  have step: "NextBackend r lb =
      (Inr (Some (hs ! nat (currentIndex lb mod int (length hs)))), ?lb', [])"
    using NextBackend_round_robin [of lb r] Cons.prems by simp
  have IH: "fst (NextBackends rs ?lb') =
      map (\<lambda>k. Inr (Some (hs ! nat (((currentIndex ?lb' + int k) mod 1000000) mod int (length hs)))))
        [0..<length rs]"
    using Cons.prems by (intro Cons.IH) simp_all
  have shift: "((currentIndex lb + 1) mod 1000000 + int k) mod 1000000
      = (currentIndex lb + int (Suc k)) mod 1000000" for k
  proof -
    have "((currentIndex lb + 1) mod 1000000 + int k) mod 1000000
        = ((currentIndex lb + 1) + int k) mod 1000000"
      by (rule mod_add_left_eq)
    also have "(currentIndex lb + 1) + int k = currentIndex lb + int (Suc k)"
      by simp
    finally show ?thesis .
  qed
  have first: "currentIndex lb mod 1000000 = currentIndex lb"
    using Cons.prems by simp
  show ?case
    using IH first
    by (simp add: step split_beta shift map_upt_Suc del: upt_Suc)
qed

lemma rotation_index:
  assumes "0 \<le> c" "c < 1000000" "0 < N" "k \<le> N"
    "c + int N < 1000000 \<or> int N dvd 1000000"
  shows "nat (((c + int k) mod 1000000) mod int N) = (nat c + k) mod N"
proof -
  have "((c + int k) mod 1000000) mod int N = (c + int k) mod int N"
    using assms(5)
  proof
    assume "c + int N < 1000000"
    then have "(c + int k) mod 1000000 = c + int k"
      using assms(1,4) by simp
    then show ?thesis by simp
  next
    assume "int N dvd 1000000"
    then show ?thesis by (rule mod_mod_cancel)
  qed
  moreover have "nat ((c + int k) mod int N) = (nat c + k) mod N"
    using assms(1) by (simp add: nat_mod_distrib nat_add_distrib)
  ultimately show ?thesis by simp
qed

lemma getHealthy_distinct: "distinct (getHealthyBackendsLocked lb)"
  by (simp add: getHealthyBackendsLocked_def)

text \<open>
  Claim C2, as amended. Under \<^verbatim>\<open>round_robin\<close>, with \<open>N \<ge> 1\<close> healthy backends and
  a cursor \<open>c\<close> with \<open>0 \<le> c < 1000000\<close> such that the cursor is not reset within the
  calls (\<open>c + N < 1000000\<close>) or \<open>N\<close> divides 1000000, \<open>N + 1\<close> consecutive calls of
  \<^verbatim>\<open>NextBackend\<close> behave as follows: the first \<open>N\<close> return the healthy snapshot
  rotated by \<open>c mod N\<close>, so each healthy backend exactly once, and the call after them
  returns what the first call returned.
\<close>

theorem roundRobin_full_rotation:
  assumes "algorithm lb = ''round_robin''"
    and "hs = getHealthyBackendsLocked lb" and "hs \<noteq> []"
    and "0 \<le> currentIndex lb" and "currentIndex lb < 1000000"
    and "currentIndex lb + int (length hs) < 1000000 \<or> int (length hs) dvd 1000000"
    and "length rs = Suc (length hs)"
  shows "take (length hs) (fst (NextBackends rs lb)) =
           map (\<lambda>i. Inr (Some i)) (rotate (nat (currentIndex lb) mod length hs) hs) \<and>
         distinct (take (length hs) (fst (NextBackends rs lb))) \<and>
         set (take (length hs) (fst (NextBackends rs lb))) = (\<lambda>i. Inr (Some i)) ` set hs \<and>
         fst (NextBackends rs lb) ! length hs = fst (NextBackends rs lb) ! 0"
proof -
  let ?N = "length hs" and ?c = "currentIndex lb"
  let ?res = "fst (NextBackends rs lb)"
  have N: "0 < ?N" using assms(3) by simp
  have res: "?res = map (\<lambda>k. Inr (Some (hs ! ((nat ?c + k) mod ?N)))) [0..<Suc ?N]"
  proof -
    have "?res = map (\<lambda>k. Inr (Some (hs ! nat (((?c + int k) mod 1000000) mod int ?N))))
        [0..<Suc ?N]"
      using NextBackends_round_robin [of lb hs rs] assms by simp
    also have "\<dots> = map (\<lambda>k. Inr (Some (hs ! ((nat ?c + k) mod ?N)))) [0..<Suc ?N]"
      using rotation_index [OF assms(4,5) N _ assms(6)] by (intro map_cong) auto
    finally show ?thesis .
  qed
  have rot: "take ?N ?res = map (\<lambda>i. Inr (Some i)) (rotate (nat ?c mod ?N) hs)"
  proof (rule nth_equalityI)
    show "length (take ?N ?res) = length (map (\<lambda>i. Inr (Some i)) (rotate (nat ?c mod ?N) hs))"
      by (simp add: res)
  next
    fix k assume "k < length (take ?N ?res)"
    then have k: "k < ?N" by (simp add: res)
    then show "take ?N ?res ! k = map (\<lambda>i. Inr (Some i)) (rotate (nat ?c mod ?N) hs) ! k"
      by (simp add: res nth_rotate mod_add_left_eq del: upt_Suc)
  qed
  have inj: "inj (\<lambda>i::nat. (Inr (Some i) :: selection))"
    by (simp add: inj_def)
  have "distinct hs"
    unfolding assms(2) by (rule getHealthy_distinct)
  then have dist: "distinct (take ?N ?res)"
    by (simp add: rot distinct_map inj_on_def)
  have st: "set (take ?N ?res) = (\<lambda>i. Inr (Some i)) ` set hs"
    by (simp add: rot)
  have wrap: "?res ! ?N = ?res ! 0"
    using N by (simp add: res nth_append del: upt_Suc)
  show ?thesis using rot dist st wrap by blast
qed

text \<open>The theorem at three healthy backends and cursor 4.\<close>

theorem roundRobin_full_rotation_witness:
  "algorithm lb3 = ''round_robin'' \<and> getHealthyBackendsLocked lb3 = [0, 1, 2] \<and>
   take 3 (fst (NextBackends [0, 0, 0, 0] (lb3\<lparr>currentIndex := 4\<rparr>))) =
     [Inr (Some 1), Inr (Some 2), Inr (Some 0)] \<and>
   fst (NextBackends [0, 0, 0, 0] (lb3\<lparr>currentIndex := 4\<rparr>)) ! 3 =
     fst (NextBackends [0, 0, 0, 0] (lb3\<lparr>currentIndex := 4\<rparr>)) ! 0"
proof -
  define lb where "lb = lb3\<lparr>currentIndex := 4\<rparr>"
  define res where "res = fst (NextBackends [0, 0, 0, 0] lb)"
  have alg: "algorithm lb3 = ''round_robin''"
    by (simp add: lb3_def New_def)
  have hs: "getHealthyBackendsLocked lb3 = [0, 1, 2]"
    by (simp add: lb3_def New_def getHealthyBackendsLocked_def)
  have "take (length [0, 1, 2 :: nat]) res =
          map (\<lambda>i. Inr (Some i)) (rotate (nat (currentIndex lb) mod length [0, 1, 2 :: nat]) [0, 1, 2]) \<and>
        distinct (take (length [0, 1, 2 :: nat]) res) \<and>
        set (take (length [0, 1, 2 :: nat]) res) = (\<lambda>i. Inr (Some i)) ` set [0, 1, 2] \<and>
        res ! length [0, 1, 2 :: nat] = res ! 0"
    unfolding res_def
    by (rule roundRobin_full_rotation) (simp_all add: alg hs lb_def)
  then have F: "take (length [0, 1, 2 :: nat]) res =
          map (\<lambda>i. Inr (Some i)) (rotate (nat (currentIndex lb) mod length [0, 1, 2 :: nat]) [0, 1, 2])"
     and G: "res ! length [0, 1, 2 :: nat] = res ! 0"
    by (rule conjunct1, rule conjunct2 [OF conjunct2 [OF conjunct2]])
  have len: "length [0, 1, 2 :: nat] = 3"
    by simp
  have rot: "rotate (nat (currentIndex lb) mod 3) [0, 1, 2 :: nat] = [1, 2, 0]"
    by (simp add: lb_def)
  have "take 3 res = [Inr (Some 1), Inr (Some 2), Inr (Some 0)]"
    using F unfolding len rot by simp
  moreover have "res ! 3 = res ! 0"
    using G unfolding len .
  ultimately show ?thesis
    unfolding res_def lb_def using alg hs by (intro conjI)
qed

text \<open>
  Claim C2 as stated, for any cursor value, fails where the cursor is reset: with three
  healthy backends and the cursor at 999999 (reached after 999999 calls), the three
  calls return the first backend twice and the third backend not at all.
\<close>

theorem roundRobin_rotation_breaks_at_wrap:
  "algorithm (lb3\<lparr>currentIndex := 999999\<rparr>) = ''round_robin'' \<and>
   getHealthyBackendsLocked (lb3\<lparr>currentIndex := 999999\<rparr>) = [0, 1, 2] \<and>
   fst (NextBackends [0, 0, 0, 0] (lb3\<lparr>currentIndex := 999999\<rparr>)) =
     [Inr (Some 0), Inr (Some 0), Inr (Some 1), Inr (Some 2)]"
  by (simp add: lb3_def New_def getHealthyBackendsLocked_def NextBackend_def roundRobin_def
        go_rem_def wrap_int_def Let_def)

section \<open>Weighted selection\<close>

lemma accumulate_selects:
  assumes "cw \<le> d"
    and "d < foldl (\<lambda>t i. wrap_int (t + BackendStatus.Weight (bs ! i))) cw hs"
  shows "\<exists>k<length hs. accumulate bs d cw hs = Some (hs ! k) \<and>
           foldl (\<lambda>t i. wrap_int (t + BackendStatus.Weight (bs ! i))) cw (take k hs) \<le> d \<and>
           d < foldl (\<lambda>t i. wrap_int (t + BackendStatus.Weight (bs ! i))) cw (take (Suc k) hs)"
  using assms
proof (induction hs arbitrary: cw)
  case Nil
  then show ?case by simp
next
  case (Cons i rest)
  let ?cw' = "wrap_int (cw + BackendStatus.Weight (bs ! i))"
  show ?case
  proof (cases "d < ?cw'")
    case True
    with Cons.prems(1) have
      "accumulate bs d cw (i # rest) = Some ((i # rest) ! 0) \<and>
       foldl (\<lambda>t i. wrap_int (t + BackendStatus.Weight (bs ! i))) cw (take 0 (i # rest)) \<le> d \<and>
       d < foldl (\<lambda>t i. wrap_int (t + BackendStatus.Weight (bs ! i))) cw (take (Suc 0) (i # rest))"
      by simp
    then show ?thesis by blast
  next
    case False
    then have le: "?cw' \<le> d" by simp
    from Cons.prems(2) have lt: "d < foldl (\<lambda>t i. wrap_int (t + BackendStatus.Weight (bs ! i))) ?cw' rest"
      by simp
    from Cons.IH [OF le lt] obtain k where k: "k < length rest"
      "accumulate bs d ?cw' rest = Some (rest ! k)"
      "foldl (\<lambda>t i. wrap_int (t + BackendStatus.Weight (bs ! i))) ?cw' (take k rest) \<le> d"
      "d < foldl (\<lambda>t i. wrap_int (t + BackendStatus.Weight (bs ! i))) ?cw' (take (Suc k) rest)"
      by blast
    have "Suc k < length (i # rest) \<and>
       accumulate bs d cw (i # rest) = Some ((i # rest) ! Suc k) \<and>
       foldl (\<lambda>t i. wrap_int (t + BackendStatus.Weight (bs ! i))) cw (take (Suc k) (i # rest)) \<le> d \<and>
       d < foldl (\<lambda>t i. wrap_int (t + BackendStatus.Weight (bs ! i))) cw (take (Suc (Suc k)) (i # rest))"
      using k False by simp
    then show ?thesis by blast
  qed
qed

lemma Intn_range: "0 < n \<Longrightarrow> \<exists>d. Intn r n = Inr d \<and> 0 \<le> d \<and> d < n \<and> d = int r mod n"
  by (simp add: Intn_def)

lemma weightedRoundRobin_pos:
  assumes pos: "0 < totalWeight (backends lb) hs"
  shows "\<exists>k<length hs.
           accumulate (backends lb) (int r mod totalWeight (backends lb) hs) 0 hs = Some (hs ! k) \<and>
           weightedRoundRobin r hs lb = (Inr (Some (hs ! k)), lb)"
proof -
  let ?d = "int r mod totalWeight (backends lb) hs"
  have d: "0 \<le> ?d" "?d < totalWeight (backends lb) hs"
    using pos by simp_all
  then obtain k where k: "k < length hs" "accumulate (backends lb) ?d 0 hs = Some (hs ! k)"
    using accumulate_selects [of 0 ?d "backends lb" hs] unfolding totalWeight_def by blast
  have ne: "hs \<noteq> []" using k(1) by auto
  have "weightedRoundRobin r hs lb = (Inr (Some (hs ! k)), lb)"
    using pos ne k(2) by (simp add: weightedRoundRobin_def Intn_def)
  with k show ?thesis by blast
qed

text \<open>
  Claim C5. In \<^verbatim>\<open>weightedRoundRobin\<close>, a total weight of zero hands the selection to
  \<^verbatim>\<open>roundRobin\<close>. With a positive total weight, for every draw \<open>d\<close> in
  \<open>[0, totalWeight)\<close> the accumulation loop returns an entry of the snapshot, the
  \<open>k\<close>-th, whose slice of the cumulative weights contains the draw: the weights before
  it sum to at most \<open>d\<close> and those up to it to more than \<open>d\<close>. So the loop never runs
  to its end, and the result of \<^verbatim>\<open>weightedRoundRobin\<close> is the loop's entry, not the
  fallback to the first entry. The sums are taken as the code takes them, in Go's
  \<^verbatim>\<open>int\<close>; the statement needs no assumption on the single weights, so it covers
  the non-negative weights of the claim.
\<close>

theorem weightedRoundRobin_selection:
  "(totalWeight (backends lb) hs = 0 \<longrightarrow> weightedRoundRobin r hs lb = roundRobin hs lb) \<and>
   (0 < totalWeight (backends lb) hs \<longrightarrow>
      (\<forall>d. 0 \<le> d \<and> d < totalWeight (backends lb) hs \<longrightarrow>
         (\<exists>k<length hs. accumulate (backends lb) d 0 hs = Some (hs ! k) \<and>
            totalWeight (backends lb) (take k hs) \<le> d \<and>
            d < totalWeight (backends lb) (take (Suc k) hs))) \<and>
      (\<exists>k<length hs.
         accumulate (backends lb) (int r mod totalWeight (backends lb) hs) 0 hs = Some (hs ! k) \<and>
         weightedRoundRobin r hs lb = (Inr (Some (hs ! k)), lb)))"
proof (intro conjI impI allI)
  assume "totalWeight (backends lb) hs = 0"
  then show "weightedRoundRobin r hs lb = roundRobin hs lb"
    by (simp add: weightedRoundRobin_def roundRobin_def)
next
  fix d assume "0 < totalWeight (backends lb) hs" and "0 \<le> d \<and> d < totalWeight (backends lb) hs"
  then show "\<exists>k<length hs. accumulate (backends lb) d 0 hs = Some (hs ! k) \<and>
            totalWeight (backends lb) (take k hs) \<le> d \<and>
            d < totalWeight (backends lb) (take (Suc k) hs)"
    unfolding totalWeight_def by (intro accumulate_selects) simp_all
next
  assume "0 < totalWeight (backends lb) hs"
  then show "\<exists>k<length hs.
         accumulate (backends lb) (int r mod totalWeight (backends lb) hs) 0 hs = Some (hs ! k) \<and>
         weightedRoundRobin r hs lb = (Inr (Some (hs ! k)), lb)"
    by (rule weightedRoundRobin_pos)
qed


text \<open>
  The theorem at the registry of the weighted test with the draw 80, which falls into the
  slice \<open>[75, 100)\<close> of the second backend, and at a registry of zero weights.
\<close>

theorem weightedRoundRobin_selection_witness:
  "totalWeight (backends lb_weighted) [0, 1] = 100 \<and>
   accumulate (backends lb_weighted) 80 0 [0, 1] = Some 1 \<and>
   weightedRoundRobin 80 [0, 1] lb_weighted = (Inr (Some 1), lb_weighted) \<and>
   totalWeight (backends lb_zero) [0, 1] = 0 \<and>
   weightedRoundRobin 7 [0, 1] lb_zero = roundRobin [0, 1] lb_zero"
proof -
  have bs: "backends lb_weighted =
      [\<lparr>Backend = backend1\<lparr>Backend.Weight := 75\<rparr>, Healthy = True, Weight = 75\<rparr>,
       \<lparr>Backend = backend2\<lparr>Backend.Weight := 25\<rparr>, Healthy = True, Weight = 25\<rparr>]"
    by (simp add: lb_weighted_def New_def SetAlgorithm_def)
  have tw: "totalWeight (backends lb_weighted) [0, 1] = 100"
    by (simp add: bs totalWeight_def wrap_int_def)
  have acc: "accumulate (backends lb_weighted) 80 0 [0, 1] = Some 1"
    by (simp add: bs wrap_int_def)
  have zs: "backends lb_zero =
      [\<lparr>Backend = backend1\<lparr>Backend.Weight := 0\<rparr>, Healthy = True, Weight = 0\<rparr>,
       \<lparr>Backend = backend2\<lparr>Backend.Weight := 0\<rparr>, Healthy = True, Weight = 0\<rparr>]"
    by (simp add: lb_zero_def New_def SetAlgorithm_def)
  have tz: "totalWeight (backends lb_zero) [0, 1] = 0"
    by (simp add: zs totalWeight_def wrap_int_def)
  have pos: "0 < totalWeight (backends lb_weighted) [0, 1]"
    by (simp only: tw)
  have "\<exists>k<length [0, 1 :: nat].
      accumulate (backends lb_weighted) (int 80 mod totalWeight (backends lb_weighted) [0, 1]) 0 [0, 1]
        = Some ([0, 1] ! k) \<and>
      weightedRoundRobin 80 [0, 1] lb_weighted = (Inr (Some ([0, 1] ! k)), lb_weighted)"
    using weightedRoundRobin_selection [of lb_weighted "[0, 1]" 80] pos by blast
  then obtain k where
    k1: "accumulate (backends lb_weighted) (int 80 mod totalWeight (backends lb_weighted) [0, 1]) 0 [0, 1]
        = Some ([0, 1] ! k)"
    and k2: "weightedRoundRobin 80 [0, 1] lb_weighted = (Inr (Some ([0, 1] ! k)), lb_weighted)"
    by blast
  have d: "int 80 mod totalWeight (backends lb_weighted) [0, 1] = 80"
    by (simp only: tw) simp
  have "[0, 1] ! k = (1 :: nat)"
    using k1 unfolding d acc by simp
  with k2 have w: "weightedRoundRobin 80 [0, 1] lb_weighted = (Inr (Some 1), lb_weighted)"
    by simp
  from weightedRoundRobin_selection [of lb_zero "[0, 1]" 7] tz
  have z: "weightedRoundRobin 7 [0, 1] lb_zero = roundRobin [0, 1] lb_zero"
    by simp
  show ?thesis using tw acc w tz z by (intro conjI)
qed


section \<open>The response-status interceptor\<close>

lemma rw_calls_through: "ResponseWriter (rw_calls calls rw) = ResponseWriter rw @ calls"
  unfolding rw_calls_def
proof (induction calls arbitrary: rw)
  case Nil
  then show ?case by simp
next
  case (Cons c calls)
  then show ?case by (cases c) (simp_all add: rw_WriteHeader_def)
qed

lemma rw_calls_statusCode:
  "statusCode (rw_calls calls rw) = last (statusCode rw # header_codes calls)"
  unfolding rw_calls_def
proof (induction calls arbitrary: rw)
  case Nil
  then show ?case by simp
next
  case (Cons c calls)
  then show ?case by (cases c) (simp_all add: rw_WriteHeader_def)
qed





section \<open>Health updates\<close>

lemma find_backend_None: "find_backend n bs = None \<longleftrightarrow> n \<notin> set (map (\<lambda>b. Name (Backend b)) bs)"
  by (induction bs) auto

lemma find_backend_Some:
  "find_backend n bs = Some j \<Longrightarrow> j < length bs \<and> Name (Backend (bs ! j)) = n"
  by (induction bs arbitrary: j) (auto split: if_splits)

lemma find_backend_names:
  "map (\<lambda>b. Name (Backend b)) bs = map (\<lambda>b. Name (Backend b)) bs' \<Longrightarrow>
   find_backend n bs = find_backend n bs'"
proof (induction bs arbitrary: bs')
  case Nil
  then show ?case by simp
next
  case (Cons b bs)
  then obtain b' rest where "bs' = b' # rest" by (cases bs') auto
  with Cons show ?case by auto
qed

lemma setHealthLoop_None:
  "find_backend n bs = None \<Longrightarrow> setHealthLoop n h bs = None"
  by (induction bs) (auto split: if_splits)

lemma setHealthLoop_Some:
  "find_backend n bs = Some j \<Longrightarrow>
   \<exists>l. setHealthLoop n h bs = Some (bs[j := (bs ! j)\<lparr>Healthy := h\<rparr>], l)"
proof (induction bs arbitrary: j)
  case Nil
  then show ?case by simp
next
  case (Cons b bs)
  show ?case
  proof (cases "Name (Backend b) = n")
    case True
    with Cons.prems have "j = 0" by simp
    with True show ?thesis by (cases "Healthy b = h") auto
  next
    case False
    with Cons.prems obtain j' where j': "find_backend n bs = Some j'" "j = Suc j'"
      by auto
    from Cons.IH [OF j'(1)] obtain l where
      "setHealthLoop n h bs = Some (bs[j' := (bs ! j')\<lparr>Healthy := h\<rparr>], l)" by blast
    with False j' show ?thesis by simp
  qed
qed

lemma SetBackendHealth_unknown:
  "find_backend n (backends lb) = None \<Longrightarrow>
   SetBackendHealth n h lb =
     (lb, Warn (''Backend '' @ n @ '' not found when updating health status''))"
  by (simp add: SetBackendHealth_def setHealthLoop_None)

lemma SetBackendHealth_known:
  "find_backend n (backends lb) = Some j \<Longrightarrow>
   fst (SetBackendHealth n h lb) =
     lb\<lparr>backends := (backends lb)[j := (backends lb ! j)\<lparr>Healthy := h\<rparr>]\<rparr>"
  using setHealthLoop_Some [of n "backends lb" j h]
  by (auto simp: SetBackendHealth_def)

lemma names_update:
  "map (\<lambda>b. Name (Backend b)) (bs[j := (bs ! j)\<lparr>Healthy := h\<rparr>]) = map (\<lambda>b. Name (Backend b)) bs"
  by (induction bs arbitrary: j) (simp_all split: nat.splits)

lemma SetBackendHealth_names:
  "map (\<lambda>b. Name (Backend b)) (backends (fst (SetBackendHealth n h lb))) =
   map (\<lambda>b. Name (Backend b)) (backends lb)"
proof (cases "find_backend n (backends lb)")
  case None
  then show ?thesis by (simp add: SetBackendHealth_unknown)
next
  case (Some j)
  then show ?thesis by (simp add: SetBackendHealth_known names_update)
qed

lemma SetAlgorithm_backends: "backends (fst (SetAlgorithm a lb)) = backends lb"
  by (simp add: SetAlgorithm_def)

lemma roundRobin_backends: "backends (snd (roundRobin hs lb)) = backends lb"
  by (simp add: roundRobin_def Let_def)

lemma weightedRoundRobin_backends: "backends (snd (weightedRoundRobin r hs lb)) = backends lb"
  by (simp add: weightedRoundRobin_def roundRobin_backends split: sum.splits option.splits)

lemma randomBackend_backends: "backends (snd (randomBackend r hs lb)) = backends lb"
  by (simp add: randomBackend_def split: sum.splits)

lemma NextBackend_backends: "backends (fst (snd (NextBackend r lb))) = backends lb"
  by (simp add: NextBackend_def Let_def split_beta roundRobin_backends
        weightedRoundRobin_backends randomBackend_backends)

lemma roundRobin_member:
  "fst (roundRobin hs lb) = Inr (Some i) \<Longrightarrow> i \<in> set hs"
  by (auto simp: roundRobin_def Let_def split: if_splits)

lemma accumulate_member:
  "accumulate bs d cw hs = Some i \<Longrightarrow> i \<in> set hs"
  by (induction hs arbitrary: cw) (auto simp: Let_def split: if_splits)

lemma weightedRoundRobin_member:
  "fst (weightedRoundRobin r hs lb) = Inr (Some i) \<Longrightarrow> i \<in> set hs"
  by (auto simp: weightedRoundRobin_def split: if_splits sum.splits option.splits
        dest: roundRobin_member accumulate_member)

lemma nat_int_mod: "nat (int r mod int n) = r mod n"
  by (simp add: zmod_int [symmetric])

lemma randomBackend_member:
  "fst (randomBackend r hs lb) = Inr (Some i) \<Longrightarrow> i \<in> set hs"
  by (auto simp: randomBackend_def Intn_def nat_int_mod split: if_splits)

lemma NextBackend_member:
  "fst (NextBackend r lb) = Inr (Some i) \<Longrightarrow> i \<in> set (getHealthyBackendsLocked lb)"
  by (auto simp: NextBackend_def Let_def split_beta split: if_splits
        dest: roundRobin_member weightedRoundRobin_member randomBackend_member)

lemma getHealthy_member:
  "i \<in> set (getHealthyBackendsLocked lb) \<longleftrightarrow> i < length (backends lb) \<and> Healthy (backends lb ! i)"
  by (auto simp: getHealthyBackendsLocked_def)

lemma SetBackendHealth_keeps_unhealthy:
  assumes "find_backend n (backends lb) = Some j" "\<not> Healthy (backends lb ! j)"
    and "\<not> (m = n \<and> h)"
  shows "\<not> Healthy (backends (fst (SetBackendHealth m h lb)) ! j)"
proof (cases "find_backend m (backends lb)")
  case None
  then show ?thesis using assms(2) by (simp add: SetBackendHealth_unknown)
next
  case (Some j')
  note fj = find_backend_Some [OF assms(1)] and fj' = find_backend_Some [OF Some]
  show ?thesis
  proof (cases "j' = j")
    case True
    with fj fj' have "m = n" by simp
    with assms(3) have "\<not> h" by simp
    with True fj show ?thesis by (simp add: SetBackendHealth_known [OF Some])
  next
    case False
    with assms(2) show ?thesis by (simp add: SetBackendHealth_known [OF Some])
  qed
qed

lemma SetBackendHealth_find:
  "find_backend n (backends (fst (SetBackendHealth m h lb))) = find_backend n (backends lb)"
  by (rule find_backend_names) (rule SetBackendHealth_names)

lemma run_calls_unhealthy:
  assumes "find_backend n (backends lb) = Some j" "\<not> Healthy (backends lb ! j)"
    and "CallSetBackendHealth n True \<notin> set calls"
  shows "Inr (Some j) \<notin> set (fst (run_calls calls lb)) \<and>
         (\<forall>i. Inr (Some i) \<in> set (fst (run_calls calls lb)) \<longrightarrow> i < length (backends lb)) \<and>
         map (\<lambda>b. Name (Backend b)) (backends (snd (run_calls calls lb))) =
           map (\<lambda>b. Name (Backend b)) (backends lb) \<and>
         \<not> Healthy (backends (snd (run_calls calls lb)) ! j)"
  using assms
proof (induction calls arbitrary: lb)
  case Nil
  then show ?case by simp
next
  case (Cons c cs)
  from Cons.prems(3) have rest: "CallSetBackendHealth n True \<notin> set cs" by simp
  show ?case
  proof (cases c)
    case (CallNextBackend r)
    obtain res lb' l where step: "NextBackend r lb = (res, lb', l)"
      by (cases "NextBackend r lb") auto
    have bs: "backends lb' = backends lb"
      using NextBackend_backends [of r lb] step by simp
    have notj: "res \<noteq> Inr (Some j)"
      using NextBackend_member [of r lb j] step Cons.prems(2) by (auto simp: getHealthy_member)
    have valid: "res = Inr (Some i) \<Longrightarrow> i < length (backends lb)" for i
      using NextBackend_member [of r lb i] step by (auto simp: getHealthy_member)
    have IH: "Inr (Some j) \<notin> set (fst (run_calls cs lb')) \<and>
         (\<forall>i. Inr (Some i) \<in> set (fst (run_calls cs lb')) \<longrightarrow> i < length (backends lb')) \<and>
         map (\<lambda>b. Name (Backend b)) (backends (snd (run_calls cs lb'))) =
           map (\<lambda>b. Name (Backend b)) (backends lb') \<and>
         \<not> Healthy (backends (snd (run_calls cs lb')) ! j)"
      using Cons.prems(1,2) rest by (intro Cons.IH) (simp_all add: bs)
    show ?thesis
      using IH notj valid by (auto simp: CallNextBackend step bs split_beta)
  next
    case (CallSetBackendHealth m h)
    let ?lb' = "fst (SetBackendHealth m h lb)"
    from Cons.prems(3) have mh: "\<not> (m = n \<and> h)"
      by (auto simp: CallSetBackendHealth)
    have f: "find_backend n (backends ?lb') = Some j"
      using Cons.prems(1) by (simp add: SetBackendHealth_find)
    have u: "\<not> Healthy (backends ?lb' ! j)"
      using Cons.prems(1,2) mh by (rule SetBackendHealth_keeps_unhealthy)
    have len: "length (backends ?lb') = length (backends lb)"
      using SetBackendHealth_names [of m h lb] by (rule map_eq_imp_length_eq)
    from Cons.IH [OF f u rest] show ?thesis
      by (simp add: CallSetBackendHealth SetBackendHealth_names len)
  next
    case (CallSetAlgorithm a)
    let ?lb' = "fst (SetAlgorithm a lb)"
    have bs: "backends ?lb' = backends lb" by (rule SetAlgorithm_backends)
    from Cons.IH [of ?lb'] Cons.prems(1,2) rest show ?thesis
      by (simp add: CallSetAlgorithm bs)
  qed
qed

lemma SetBackendHealth_sets:
  assumes "find_backend n (backends lb) = Some j"
  shows "Healthy (backends (fst (SetBackendHealth n h lb)) ! j) = h"
  using find_backend_Some [OF assms] by (simp add: SetBackendHealth_known [OF assms])

lemma go_rem_small: "0 \<le> a \<Longrightarrow> a < b \<Longrightarrow> go_rem a b = a"
  by (simp add: go_rem_def)

lemma roundRobin_at:
  assumes "k < length hs"
  shows "fst (roundRobin hs (lb\<lparr>currentIndex := int k\<rparr>)) = Inr (Some (hs ! k))"
proof -
  have "go_rem (int k) (int (length hs)) = int k"
    using assms by (intro go_rem_small) simp_all
  then show ?thesis using assms by (auto simp: roundRobin_def Let_def)
qed

lemma randomBackend_at:
  assumes "k < length hs"
  shows "fst (randomBackend k hs lb) = Inr (Some (hs ! k))"
  using assms by (auto simp: randomBackend_def Intn_def nat_int_mod)

lemma NextBackend_can_select:
  assumes "j \<in> set (getHealthyBackendsLocked lb)" "algorithm lb \<noteq> ''weighted_round_robin''"
  shows "\<exists>r c. 0 \<le> c \<and> fst (NextBackend r (lb\<lparr>currentIndex := c\<rparr>)) = Inr (Some j)"
proof -
  let ?hs = "getHealthyBackendsLocked lb"
  from assms(1) obtain k where k: "k < length ?hs" "?hs ! k = j"
    by (auto simp: in_set_conv_nth)
  then have ne: "?hs \<noteq> []" by auto
  have "fst (NextBackend k (lb\<lparr>currentIndex := int k\<rparr>)) = Inr (Some j)"
    using assms(2) ne k roundRobin_at [OF k(1), of lb]
      randomBackend_at [OF k(1), of "lb\<lparr>currentIndex := int k\<rparr>"]
    by (simp add: NextBackend_def Let_def split_beta)
  then show ?thesis by (intro exI [of _ k] exI [of _ "int k"]) simp
qed

text \<open>
  Claim C4. Let \<open>j\<close> be the registry entry the name denotes. After
  \<^verbatim>\<open>SetBackendHealth(name, false)\<close>, in any sequence of calls of \<^verbatim>\<open>NextBackend\<close>,
  \<^verbatim>\<open>SetAlgorithm\<close> and \<^verbatim>\<open>SetBackendHealth\<close> that does not set this name healthy
  again, no \<^verbatim>\<open>NextBackend\<close> call returns the entry \<open>j\<close>; when the names of the registry
  are distinct, as the data model requires, every backend returned carries another name.
  After a following \<^verbatim>\<open>SetBackendHealth(name, true)\<close> the entry is in the healthy
  snapshot that \<^verbatim>\<open>NextBackend\<close> selects from, and unless the algorithm is the weighted
  one (where an entry of weight zero is never drawn) there are a cursor position and a
  draw at which the next call returns it.
\<close>

theorem unhealthy_backend_never_selected:
  assumes "find_backend backendName (backends lb) = Some j"
    and "CallSetBackendHealth backendName True \<notin> set calls"
  shows "Inr (Some j) \<notin> set (fst (run_calls calls (fst (SetBackendHealth backendName False lb)))) \<and>
         (distinct (map (\<lambda>b. Name (Backend b)) (backends lb)) \<longrightarrow>
            (\<forall>i. Inr (Some i) \<in> set (fst (run_calls calls (fst (SetBackendHealth backendName False lb))))
               \<longrightarrow> i < length (backends lb) \<and> Name (Backend (backends lb ! i)) \<noteq> backendName)) \<and>
         j \<in> set (getHealthyBackendsLocked
                (fst (SetBackendHealth backendName True
                   (snd (run_calls calls (fst (SetBackendHealth backendName False lb))))))) \<and>
         (algorithm (snd (run_calls calls (fst (SetBackendHealth backendName False lb))))
            \<noteq> ''weighted_round_robin'' \<longrightarrow>
          (\<exists>r c. 0 \<le> c \<and>
             fst (NextBackend r
                   ((fst (SetBackendHealth backendName True
                      (snd (run_calls calls (fst (SetBackendHealth backendName False lb))))))
                    \<lparr>currentIndex := c\<rparr>)) = Inr (Some j)))"
proof -
  let ?lb1 = "fst (SetBackendHealth backendName False lb)"
  let ?sels = "fst (run_calls calls ?lb1)"
  let ?lb2 = "snd (run_calls calls ?lb1)"
  let ?lb3 = "fst (SetBackendHealth backendName True ?lb2)"
  note fj = find_backend_Some [OF assms(1)]
  have f1: "find_backend backendName (backends ?lb1) = Some j"
    using assms(1) by (simp add: SetBackendHealth_find)
  have u1: "\<not> Healthy (backends ?lb1 ! j)"
    using SetBackendHealth_sets [OF assms(1), of False] by simp
  have len1: "length (backends ?lb1) = length (backends lb)"
    using SetBackendHealth_names [of backendName False lb] by (rule map_eq_imp_length_eq)
  note inv = run_calls_unhealthy [OF f1 u1 assms(2)]
  have a: "Inr (Some j) \<notin> set ?sels" using inv by blast
  have valid: "Inr (Some i) \<in> set ?sels \<Longrightarrow> i < length (backends lb)" for i
    using inv len1 by auto
  have b: "Name (Backend (backends lb ! i)) \<noteq> backendName"
    if d: "distinct (map (\<lambda>b. Name (Backend b)) (backends lb))" and i: "Inr (Some i) \<in> set ?sels" for i
  proof
    assume eq: "Name (Backend (backends lb ! i)) = backendName"
    have "i < length (backends lb)" using i by (rule valid)
    with fj eq d have "i = j"
      by (auto simp: distinct_conv_nth)
    with a i show False by simp
  qed
  have names2: "map (\<lambda>b. Name (Backend b)) (backends ?lb2) = map (\<lambda>b. Name (Backend b)) (backends lb)"
    using inv SetBackendHealth_names [of backendName False lb] by simp
  have f2: "find_backend backendName (backends ?lb2) = Some j"
    using find_backend_names [OF names2, of backendName] assms(1) by simp
  have h3: "Healthy (backends ?lb3 ! j)"
    using SetBackendHealth_sets [OF f2, of True] by simp
  have "length (backends ?lb3) = length (backends ?lb2)"
    using SetBackendHealth_names [of backendName True ?lb2] by (rule map_eq_imp_length_eq)
  moreover have "length (backends ?lb2) = length (backends lb)"
    using names2 by (rule map_eq_imp_length_eq)
  ultimately have c: "j \<in> set (getHealthyBackendsLocked ?lb3)"
    using h3 fj by (simp add: getHealthy_member)
  have alg3: "algorithm ?lb3 = algorithm ?lb2"
    by (cases "find_backend backendName (backends ?lb2)")
       (simp_all add: SetBackendHealth_unknown SetBackendHealth_known)
  have e: "\<exists>r c. 0 \<le> c \<and> fst (NextBackend r (?lb3\<lparr>currentIndex := c\<rparr>)) = Inr (Some j)"
    if "algorithm ?lb2 \<noteq> ''weighted_round_robin''"
    using NextBackend_can_select [OF c] that alg3 by simp
  show ?thesis using a valid b c e by blast
qed


text \<open>
  The theorem at the registry of the tests, with \<^verbatim>\<open>backend1\<close> marked unhealthy: all
  selections go to the second entry.
\<close>

theorem unhealthy_backend_never_selected_witness:
  "find_backend ''backend1'' (backends lb2) = Some 0 \<and>
   distinct (map (\<lambda>b. Name (Backend b)) (backends lb2)) \<and>
   fst (run_calls [CallNextBackend 0, CallNextBackend 0, CallSetAlgorithm ''random'', CallNextBackend 3]
         (fst (SetBackendHealth ''backend1'' False lb2))) = [Inr (Some 1), Inr (Some 1), Inr (Some 1)] \<and>
   Inr (Some 0) \<notin> set (fst (run_calls
       [CallNextBackend 0, CallNextBackend 0, CallSetAlgorithm ''random'', CallNextBackend 3]
       (fst (SetBackendHealth ''backend1'' False lb2)))) \<and>
   0 \<in> set (getHealthyBackendsLocked (fst (SetBackendHealth ''backend1'' True (snd (run_calls
       [CallNextBackend 0, CallNextBackend 0, CallSetAlgorithm ''random'', CallNextBackend 3]
       (fst (SetBackendHealth ''backend1'' False lb2)))))))"
proof -
  have f: "find_backend ''backend1'' (backends lb2) = Some 0"
    by (simp add: lb2_def New_def backend1_def)
  have d: "distinct (map (\<lambda>b. Name (Backend b)) (backends lb2))"
    by (simp add: lb2_def New_def backend1_def backend2_def)
  have c: "CallSetBackendHealth ''backend1'' True \<notin>
      set [CallNextBackend 0, CallNextBackend 0, CallSetAlgorithm ''random'', CallNextBackend 3]"
    by simp
  have run: "fst (run_calls [CallNextBackend 0, CallNextBackend 0, CallSetAlgorithm ''random'', CallNextBackend 3]
         (fst (SetBackendHealth ''backend1'' False lb2))) = [Inr (Some 1), Inr (Some 1), Inr (Some 1)]"
    by (simp add: lb2_def New_def backend1_def backend2_def SetBackendHealth_def SetAlgorithm_def
          validAlgorithms_def NextBackend_def getHealthyBackendsLocked_def roundRobin_def
          randomBackend_def Intn_def go_rem_def wrap_int_def Let_def)
  show ?thesis
    using unhealthy_backend_never_selected [OF f c] f d run by blast
qed


text \<open>
  Claim C9. \<^verbatim>\<open>SetBackendHealth\<close> with a name that no registry entry carries leaves
  the load balancer as it was, so every healthy flag and weight is unchanged; its only
  effect is one line logged at warning level. The function has no result besides, so no
  failure reaches the caller.
\<close>

theorem SetBackendHealth_unknown_name:
  assumes "backendName \<notin> set (map (\<lambda>b. Name (Backend b)) (backends lb))"
  shows "SetBackendHealth backendName healthy lb =
     (lb, [(WarnLevel, ''Backend '' @ backendName @ '' not found when updating health status'')])"
  using assms SetBackendHealth_unknown [of backendName lb healthy]
  by (simp add: find_backend_None Warn_def)

text \<open>The theorem at the registry of the tests and a name it does not hold.\<close>

theorem SetBackendHealth_unknown_name_witness:
  "''backend9'' \<notin> set (map (\<lambda>b. Name (Backend b)) (backends lb2)) \<and>
   SetBackendHealth ''backend9'' False lb2 =
     (lb2, [(WarnLevel, ''Backend backend9 not found when updating health status'')])"
proof -
  have n: "''backend9'' \<notin> set (map (\<lambda>b. Name (Backend b)) (backends lb2))"
    by (simp add: lb2_def New_def backend1_def backend2_def)
  show ?thesis
    using SetBackendHealth_unknown_name [OF n, of False] n by simp
qed

section \<open>The health endpoint\<close>







section \<open>The rate limit middleware\<close>

text \<open>
  Claim C8. For a request whose path is \<^verbatim>\<open>/health\<close> or \<^verbatim>\<open>/metrics\<close>, whatever
  the state of the limiter, the middleware does what the inner handler does and nothing
  else: the calls on the writer and the package state are the inner handler's, so it
  writes no 429, and the limiter is left as it was.
\<close>

theorem rate_limit_exempt_paths:
  assumes "Path r = ''/health'' \<or> Path r = ''/metrics''"
  shows "RateLimitMiddleware_Wrap now next r g (limiter, e) =
           (fst (next r g e), fst (snd (next r g e)), (limiter, snd (snd (next r g e))))"
  using assms by (simp add: RateLimitMiddleware_Wrap_def split_beta)


text \<open>
  The theorem at a limiter with an empty bucket, which admits nothing, and a request to
  \<^verbatim>\<open>/health\<close>.
\<close>

theorem rate_limit_exempt_paths_witness:
  "Path get_health = ''/health'' \<and>
   Allow 0 (NewLimiter (1 / 60) 1\<lparr>tokens := 0\<rparr>) = (False, NewLimiter (1 / 60) 1\<lparr>tokens := 0\<rparr>) \<and>
   RateLimitMiddleware_Wrap 0 ok_handler get_health no_globals (NewLimiter (1 / 60) 1\<lparr>tokens := 0\<rparr>, ()) =
     ([WriteHeader 200, Write ''OK''], no_globals, (NewLimiter (1 / 60) 1\<lparr>tokens := 0\<rparr>, ())) \<and>
   Code (respond (fst (RateLimitMiddleware_Wrap 0 ok_handler get_health no_globals
     (NewLimiter (1 / 60) 1\<lparr>tokens := 0\<rparr>, ())))) = 200"
proof -
  have p: "Path get_health = ''/health'' \<or> Path get_health = ''/metrics''"
    by (simp add: get_health_def)
  have a: "Allow 0 (NewLimiter (1 / 60) 1\<lparr>tokens := 0\<rparr>) = (False, NewLimiter (1 / 60) 1\<lparr>tokens := 0\<rparr>)"
    by (simp add: Allow_def available_def NewLimiter_def)
  have w: "RateLimitMiddleware_Wrap 0 ok_handler get_health no_globals (NewLimiter (1 / 60) 1\<lparr>tokens := 0\<rparr>, ()) =
     ([WriteHeader 200, Write ''OK''], no_globals, (NewLimiter (1 / 60) 1\<lparr>tokens := 0\<rparr>, ()))"
    using rate_limit_exempt_paths [OF p, of 0 ok_handler no_globals "NewLimiter (1 / 60) 1\<lparr>tokens := 0\<rparr>" "()"]
    by (simp add: ok_handler_def)
  have c: "Code (respond [WriteHeader 200, Write ''OK'']) = 200"
    by (simp add: respond_def NewRecorder_def recorder_WriteHeader_def)
  show ?thesis using p a w c by (simp add: get_health_def)
qed

lemma Allow_full_bucket:
  "Allow t1 (NewLimiter (1 / 60) 1) = (True, NewLimiter (1 / 60) 1\<lparr>tokens := 0, lastTime := t1\<rparr>)"
proof -
  have "available t1 (NewLimiter (1 / 60) 1) = 1"
    by (simp add: available_def NewLimiter_def min_def)
  then show ?thesis by (simp add: Allow_def)
qed

lemma Allow_empty_bucket:
  assumes "t1 \<le> t2" "t2 < t1 + 60"
  shows "Allow t2 (NewLimiter (1 / 60) 1\<lparr>tokens := 0, lastTime := t1\<rparr>) =
           (False, NewLimiter (1 / 60) 1\<lparr>tokens := 0, lastTime := t1\<rparr>)"
proof -
  have "available t2 (NewLimiter (1 / 60) 1\<lparr>tokens := 0, lastTime := t1\<rparr>) = (t2 - t1) / 60"
    using assms by (simp add: available_def NewLimiter_def min_def max_def)
  moreover have "(t2 - t1) / 60 < 1" using assms by simp
  ultimately show ?thesis by (simp add: Allow_def)
qed

lemma respond_rejection:
  "respond (SetHeader ''Retry-After'' ''60'' # http_Error msg code) =
     \<lparr>Header = [''Retry-After'' \<mapsto> ''60'', ''Content-Type'' \<mapsto> ''text/plain; charset=utf-8'',
                 ''X-Content-Type-Options'' \<mapsto> ''nosniff''],
       wroteHeader = True, Code = code,
       sentHeader = [''Retry-After'' \<mapsto> ''60'', ''Content-Type'' \<mapsto> ''text/plain; charset=utf-8'',
                 ''X-Content-Type-Options'' \<mapsto> ''nosniff''],
       Body = msg @ [CHR 0x0A]\<rparr>"
  by (simp add: respond_def http_Error_def NewRecorder_def recorder_WriteHeader_def)

text \<open>
  Claim C6. With one request per minute and burst 1: the first request to a path that
  is not exempt is passed to the inner handler and takes the one token of the bucket;
  a second such request less than a minute later (at once, in particular) is answered
  with status 429 and the header \<^verbatim>\<open>Retry-After: 60\<close>, the inner handler is not run,
  and the limiter is left as the first request left it.
\<close>

theorem rate_limit_one_per_minute:
  assumes "Path r1 \<noteq> ''/health''" "Path r1 \<noteq> ''/metrics''"
    and "Path r2 \<noteq> ''/health''" "Path r2 \<noteq> ''/metrics''"
    and "t1 \<le> t2" "t2 < t1 + 60"
    and "limiter0 = fst (NewRateLimiter 1 1)"
    and "first = RateLimitMiddleware_Wrap t1 next r1 g (limiter0, e)"
    and "limiter1 = fst (snd (snd first))"
    and "second = RateLimitMiddleware_Wrap t2 next r2 (fst (snd first)) (snd (snd first))"
  shows "fst first = fst (next r1 g e) \<and>
         tokens limiter0 = 1 \<and> tokens limiter1 = 0 \<and>
         Code (respond (fst second)) = 429 \<and>
         sentHeader (respond (fst second)) ''Retry-After'' = Some ''60'' \<and>
         Header (respond (fst second)) ''Retry-After'' = Some ''60'' \<and>
         fst (snd (snd second)) = limiter1 \<and>
         snd (snd (snd second)) = snd (snd (next r1 g e))"
proof -
  have l0: "limiter0 = NewLimiter (1 / 60) 1"
    by (simp add: assms(7) NewRateLimiter_def)
  have first: "first = (fst (next r1 g e), fst (snd (next r1 g e)),
      (NewLimiter (1 / 60) 1\<lparr>tokens := 0, lastTime := t1\<rparr>, snd (snd (next r1 g e))))"
    using assms(1,2)
    by (simp add: assms(8) l0 RateLimitMiddleware_Wrap_def Allow_full_bucket split_beta)
  have l1: "limiter1 = NewLimiter (1 / 60) 1\<lparr>tokens := 0, lastTime := t1\<rparr>"
    by (simp add: assms(9) first)
  have second: "second =
      (SetHeader ''Retry-After'' ''60'' # http_Error ''Rate limit exceeded'' 429,
       (fst (snd (next r1 g e)))
         \<lparr>logged := logged (fst (snd (next r1 g e)))
             @ Warn (''Rate limit exceeded for '' @ Method r2 @ '' '' @ Path r2
                     @ '' from '' @ getClientIP r2),
          metrics := RecordRateLimit (metrics (fst (snd (next r1 g e))))\<rparr>,
       (limiter1, snd (snd (next r1 g e))))"
    using assms(3,4) Allow_empty_bucket [OF assms(5,6)]
    by (simp add: assms(10) first l1 RateLimitMiddleware_Wrap_def)
  show ?thesis
    by (simp add: first second l0 l1 respond_rejection NewLimiter_def)
qed


text \<open>
  The theorem at the scenario of the middleware test: two requests to \<^verbatim>\<open>/test\<close> at
  the same instant.
\<close>

theorem rate_limit_one_per_minute_witness:
  "Code (respond (fst (RateLimitMiddleware_Wrap 0 ok_handler get_test no_globals
      (fst (NewRateLimiter 1 1), ())))) = 200 \<and>
   tokens (fst (snd (snd (RateLimitMiddleware_Wrap 0 ok_handler get_test no_globals
      (fst (NewRateLimiter 1 1), ()))))) = 0 \<and>
   Code (respond (fst (RateLimitMiddleware_Wrap 0 ok_handler get_test
      (fst (snd (RateLimitMiddleware_Wrap 0 ok_handler get_test no_globals (fst (NewRateLimiter 1 1), ()))))
      (snd (snd (RateLimitMiddleware_Wrap 0 ok_handler get_test no_globals (fst (NewRateLimiter 1 1), ()))))))) = 429 \<and>
   sentHeader (respond (fst (RateLimitMiddleware_Wrap 0 ok_handler get_test
      (fst (snd (RateLimitMiddleware_Wrap 0 ok_handler get_test no_globals (fst (NewRateLimiter 1 1), ()))))
      (snd (snd (RateLimitMiddleware_Wrap 0 ok_handler get_test no_globals (fst (NewRateLimiter 1 1), ())))))))
     ''Retry-After'' = Some ''60''"
proof -
  define first where
    "first = RateLimitMiddleware_Wrap 0 ok_handler get_test no_globals (fst (NewRateLimiter 1 1), ())"
  define second where
    "second = RateLimitMiddleware_Wrap 0 ok_handler get_test (fst (snd first)) (snd (snd first))"
  have p: "Path get_test \<noteq> ''/health''" "Path get_test \<noteq> ''/metrics''"
    by (simp_all add: get_test_def)
  have t: "(0::rat) \<le> 0" "(0::rat) < 0 + 60"
    by simp_all
  note th = rate_limit_one_per_minute [OF p p t refl first_def refl second_def]
  have ok: "Code (respond (fst (ok_handler get_test no_globals ()))) = 200"
    by (simp add: ok_handler_def respond_def NewRecorder_def recorder_WriteHeader_def)
  have "Code (respond (fst first)) = 200"
    using th ok by simp
  moreover have "tokens (fst (snd (snd first))) = 0"
    using th by blast
  moreover have "Code (respond (fst second)) = 429"
    using th by blast
  moreover have "sentHeader (respond (fst second)) ''Retry-After'' = Some ''60''"
    using th by blast
  ultimately show ?thesis
    unfolding second_def first_def by (intro conjI)
qed


section \<open>The metrics middleware\<close>

lemma MetricsMiddleware_Wrap_eq:
  "MetricsMiddleware_Wrap d next r g e =
     (fst (next r g e),
      (if Path r \<noteq> ''/metrics'' then
         (fst (snd (next r g e)))
           \<lparr>metrics := RecordRequest (Method r)
               (Itoa (last (200 # header_codes (fst (next r g e))))) ''gateway'' d
               (metrics (fst (snd (next r g e))))\<rparr>
       else fst (snd (next r g e))),
      snd (snd (next r g e)))"
  by (simp add: MetricsMiddleware_Wrap_def Let_def split_beta rw_calls_through
        rw_calls_statusCode StatusCode_def NewResponseWriter_def)

text \<open>
  Claim C10. \<^verbatim>\<open>MetricsMiddleware.Wrap\<close> passes the inner handler's calls to its
  writer unchanged. For a path other than \<^verbatim>\<open>/metrics\<close> it then records one request
  with the method, the status the wrapper holds, the backend label \<^verbatim>\<open>gateway\<close> and the
  duration: that counter goes up by one and the duration is observed. For the path
  \<^verbatim>\<open>/metrics\<close> it records nothing: the package state is as the inner handler
  left it.
\<close>

theorem metrics_middleware_skips_metrics_path:
  "fst (MetricsMiddleware_Wrap d next r g e) = fst (next r g e) \<and>
   snd (snd (MetricsMiddleware_Wrap d next r g e)) = snd (snd (next r g e)) \<and>
   (Path r \<noteq> ''/metrics'' \<longrightarrow>
      fst (snd (MetricsMiddleware_Wrap d next r g e)) =
        (fst (snd (next r g e)))
          \<lparr>metrics := RecordRequest (Method r)
              (Itoa (last (200 # header_codes (fst (next r g e))))) ''gateway'' d
              (metrics (fst (snd (next r g e))))\<rparr> \<and>
      requestsTotal (metrics (fst (snd (MetricsMiddleware_Wrap d next r g e))))
          (Method r, Itoa (last (200 # header_codes (fst (next r g e)))), ''gateway'') =
        Suc (requestsTotal (metrics (fst (snd (next r g e))))
          (Method r, Itoa (last (200 # header_codes (fst (next r g e)))), ''gateway'')) \<and>
      requestDuration (metrics (fst (snd (MetricsMiddleware_Wrap d next r g e))))
          (Method r, ''gateway'') =
        requestDuration (metrics (fst (snd (next r g e)))) (Method r, ''gateway'') @ [d]) \<and>
   (Path r = ''/metrics'' \<longrightarrow>
      fst (snd (MetricsMiddleware_Wrap d next r g e)) = fst (snd (next r g e)))"
  by (simp add: MetricsMiddleware_Wrap_eq RecordRequest_def)

text \<open>
  The theorem at the handler of the tests, for a request to \<^verbatim>\<open>/test\<close> and one to
  \<^verbatim>\<open>/metrics\<close>, starting from collectors that have recorded nothing.
\<close>

theorem metrics_middleware_skips_metrics_path_witness:
  "requestsTotal (metrics (fst (snd (MetricsMiddleware_Wrap 5 ok_handler get_test no_globals ()))))
     (''GET'', ''200'', ''gateway'') = 1 \<and>
   requestDuration (metrics (fst (snd (MetricsMiddleware_Wrap 5 ok_handler get_test no_globals ()))))
     (''GET'', ''gateway'') = [5] \<and>
   fst (snd (MetricsMiddleware_Wrap 5 ok_handler get_metrics no_globals ())) = no_globals"
proof -
  define out where "out = MetricsMiddleware_Wrap 5 ok_handler get_test no_globals ()"
  define outm where "outm = MetricsMiddleware_Wrap 5 ok_handler get_metrics no_globals ()"
  have i: "Itoa 200 = ''200''" by code_simp
  have k: "Itoa (last (200 # header_codes (fst (ok_handler r no_globals ())))) = ''200''" for r
    by (simp add: ok_handler_def i)
  have g: "fst (snd (ok_handler r no_globals ())) = no_globals" for r
    by (simp add: ok_handler_def)
  have z: "requestsTotal (metrics no_globals) key = 0" for key
    by (simp add: no_globals_def no_metrics_def)
  have zd: "requestDuration (metrics no_globals) key' = []" for key'
    by (simp add: no_globals_def no_metrics_def)
  have m: "Method get_test = ''GET''" and pt: "Path get_test \<noteq> ''/metrics''"
    by (simp_all add: get_test_def)
  have pm: "Path get_metrics = ''/metrics''"
    by (simp add: get_metrics_def)
  have "requestsTotal (metrics (fst (snd out)))
          (Method get_test, Itoa (last (200 # header_codes (fst (ok_handler get_test no_globals ())))),
           ''gateway'') =
        Suc (requestsTotal (metrics (fst (snd (ok_handler get_test no_globals ()))))
          (Method get_test, Itoa (last (200 # header_codes (fst (ok_handler get_test no_globals ())))),
           ''gateway''))"
    and "requestDuration (metrics (fst (snd out))) (Method get_test, ''gateway'') =
        requestDuration (metrics (fst (snd (ok_handler get_test no_globals ()))))
          (Method get_test, ''gateway'') @ [5]"
    using metrics_middleware_skips_metrics_path [of 5 ok_handler get_test no_globals "()"] pt
    unfolding out_def by blast+
  then have a: "requestsTotal (metrics (fst (snd out))) (''GET'', ''200'', ''gateway'') = 1"
    and b: "requestDuration (metrics (fst (snd out))) (''GET'', ''gateway'') = [5]"
    unfolding k g z zd m by simp_all
  have "fst (snd outm) = fst (snd (ok_handler get_metrics no_globals ()))"
    using metrics_middleware_skips_metrics_path [of 5 ok_handler get_metrics no_globals "()"] pm
    unfolding outm_def by blast
  then have c: "fst (snd outm) = no_globals"
    unfolding g .
  show ?thesis
    using a b c unfolding out_def outm_def by (intro conjI)
qed

section \<open>Selection returns nil exactly when no backend is healthy\<close>

lemma roundRobin_selects:
  assumes "hs \<noteq> []" "0 \<le> currentIndex lb"
  shows "\<exists>k<length hs. fst (roundRobin hs lb) = Inr (Some (hs ! k))"
proof -
  let ?idx = "currentIndex lb mod int (length hs)"
  have len: "0 < int (length hs)" using assms(1) by simp
  have idx: "go_rem (currentIndex lb) (int (length hs)) = ?idx"
    using assms(2) len by (rule go_rem_nonneg)
  have range: "0 \<le> ?idx" "?idx < int (length hs)"
    using len by simp_all
  then have "fst (roundRobin hs lb) = Inr (Some (hs ! nat ?idx))"
    using assms(1) by (simp add: roundRobin_def idx Let_def not_less not_le)
  moreover have "nat ?idx < length hs"
    using range by simp
  ultimately show ?thesis by blast
qed

lemma weightedRoundRobin_selects:
  assumes "hs \<noteq> []" "0 \<le> currentIndex lb" "0 \<le> totalWeight (backends lb) hs"
  shows "\<exists>k<length hs. fst (weightedRoundRobin r hs lb) = Inr (Some (hs ! k))"
proof (cases "totalWeight (backends lb) hs = 0")
  case True
  then have "weightedRoundRobin r hs lb = roundRobin hs lb"
    using assms(1) by (simp add: weightedRoundRobin_def)
  then show ?thesis using roundRobin_selects [OF assms(1,2)] by simp
next
  case False
  with assms(3) have "0 < totalWeight (backends lb) hs" by simp
  from weightedRoundRobin_pos [OF this, of r] show ?thesis by auto
qed

lemma randomBackend_selects:
  assumes "hs \<noteq> []"
  shows "\<exists>k<length hs. fst (randomBackend r hs lb) = Inr (Some (hs ! k))"
proof -
  have "fst (randomBackend r hs lb) = Inr (Some (hs ! (r mod length hs)))"
    using assms by (simp add: randomBackend_def Intn_def nat_int_mod)
  moreover have "r mod length hs < length hs"
    using assms by simp
  ultimately show ?thesis by blast
qed

lemma NextBackend_selects:
  assumes "getHealthyBackendsLocked lb \<noteq> []" "0 \<le> currentIndex lb"
    and "algorithm lb = ''weighted_round_robin'' \<longrightarrow>
           0 \<le> totalWeight (backends lb) (getHealthyBackendsLocked lb)"
  shows "\<exists>i. fst (NextBackend r lb) = Inr (Some i) \<and> i < length (backends lb) \<and>
           Healthy (backends lb ! i)"
proof -
  let ?hs = "getHealthyBackendsLocked lb"
  have "\<exists>k<length ?hs. fst (NextBackend r lb) = Inr (Some (?hs ! k))"
  proof (cases "algorithm lb = ''weighted_round_robin''")
    case True
    with assms(3) have "0 \<le> totalWeight (backends lb) ?hs" by simp
    from weightedRoundRobin_selects [OF assms(1,2) this, of r] show ?thesis
      using True assms(1) by (simp add: NextBackend_def Let_def split_beta)
  next
    case False
    show ?thesis
      using False assms(1) roundRobin_selects [OF assms(1,2)]
        randomBackend_selects [OF assms(1), of r lb]
      by (simp add: NextBackend_def Let_def split_beta)
  qed
  then obtain k where k: "k < length ?hs" "fst (NextBackend r lb) = Inr (Some (?hs ! k))"
    by blast
  from k(1) have "?hs ! k \<in> set ?hs" by simp
  then have "?hs ! k < length (backends lb) \<and> Healthy (backends lb ! (?hs ! k))"
    by (simp add: getHealthy_member)
  with k(2) show ?thesis by blast
qed

text \<open>
  Claim C1. \<^verbatim>\<open>NextBackend\<close> returns \<^verbatim>\<open>nil\<close> exactly when no entry of the registry has
  its healthy flag set: with at least one healthy entry the result is never
  \<^verbatim>\<open>nil\<close>, whatever the algorithm, the cursor and the random draw are; with no
  healthy entry the call returns \<^verbatim>\<open>nil\<close> and leaves the state as it was, so every
  call of any sequence of calls returns \<^verbatim>\<open>nil\<close> again. With a healthy entry, a
  cursor that is not negative (as it is from \<^verbatim>\<open>New\<close> on) and, under the weighted
  algorithm, a total weight of the snapshot that is not negative, the call does return,
  and what it returns is a healthy entry of the registry.
\<close>

theorem NextBackend_nil_iff_no_healthy:
  "(fst (NextBackend r lb) = Inr None \<longleftrightarrow> (\<forall>b\<in>set (backends lb). \<not> Healthy b)) \<and>
   ((\<forall>b\<in>set (backends lb). \<not> Healthy b) \<longrightarrow>
      fst (NextBackends rs lb) = replicate (length rs) (Inr None) \<and>
      fst (snd (NextBackends rs lb)) = lb) \<and>
   ((\<exists>b\<in>set (backends lb). Healthy b) \<and> 0 \<le> currentIndex lb \<and>
    (algorithm lb = ''weighted_round_robin'' \<longrightarrow>
       0 \<le> totalWeight (backends lb) (getHealthyBackendsLocked lb)) \<longrightarrow>
      (\<exists>i. fst (NextBackend r lb) = Inr (Some i) \<and> i < length (backends lb) \<and>
           Healthy (backends lb ! i)))"
proof (cases "getHealthyBackendsLocked lb = []")
  case True
  then show ?thesis
    using getHealthy_empty_iff [of lb]
    by (simp add: NextBackend_no_healthy NextBackends_no_healthy)
next
  case False
  then show ?thesis
    using getHealthy_empty_iff [of lb] NextBackend_some_healthy [OF False, of r]
      NextBackend_selects [OF False, of r]
    by blast
qed

text \<open>
  The theorem at the registry of the tests with both backends marked unhealthy, and at
  the same registry with both healthy.
\<close>

theorem NextBackend_nil_iff_no_healthy_witness:
  "list_all (\<lambda>b. \<not> Healthy b) (backends lb2_down) \<and>
   fst (NextBackend 0 lb2_down) = Inr None \<and>
   fst (NextBackends [0, 0, 0] lb2_down) = [Inr None, Inr None, Inr None] \<and>
   fst (snd (NextBackends [0, 0, 0] lb2_down)) = lb2_down \<and>
   (\<exists>b\<in>set (backends lb2). Healthy b) \<and>
   fst (NextBackend 0 lb2) \<noteq> Inr None \<and>
   (\<exists>i. fst (NextBackend 0 lb2) = Inr (Some i) \<and> i < length (backends lb2) \<and>
        Healthy (backends lb2 ! i))"
  using NextBackend_nil_iff_no_healthy [of 0 lb2_down "[0, 0, 0]"]
        NextBackend_nil_iff_no_healthy [of 0 lb2 "[]"]
  by (simp add: lb2_down_def lb2_def New_def SetBackendHealth_def backend1_def backend2_def)

end
